theory Spec2Isabelle
  imports Complex_Main
begin

section \<open>Data model of \<open>utils.py\<close>\<close>

text \<open>
  A Whisper transcript segment is a dictionary with the keys \<open>text\<close>, \<open>start\<close> and
  \<open>end\<close>; a chunk is a dictionary with the keys \<open>text\<close>, \<open>start_time\<close> and
  \<open>end_time\<close>. Both are records here (\<open>text\<close> and \<open>end\<close> are reserved words, so the
  segment fields carry the prefix \<open>seg_\<close>). Times are only copied and compared by the
  chunker; they are real numbers in the model. A string is a list of characters, a
  character standing for a code point below 256.
\<close>

record segment =
  seg_text :: string
  seg_start :: real
  seg_end :: real

record chunk =
  chunk_text :: string
  start_time :: real
  end_time :: real

datatype py_error = IndexError

subsection \<open>\<open>str.strip()\<close>\<close>

text \<open>
  \<open>str.isspace\<close> on the code points below 256: TAB, LF, VT, FF, CR, the separators
  FS, GS, RS, US, the space, NEL and the no-break space.
\<close>

definition py_isspace :: "char \<Rightarrow> bool" where
  "py_isspace c = (of_char c \<in> {9, 10, 11, 12, 13, 28, 29, 30, 31, 32, 133, 160 :: nat})"

definition strip :: "string \<Rightarrow> string" where
  "strip s = rev (dropWhile py_isspace (rev (dropWhile py_isspace s)))"

section \<open>\<open>chunk_transcript_segments\<close>\<close>

text \<open>
  The three local variables of the generator. The token estimator
  \<open>estimate_token_count\<close> wraps the external \<open>tiktoken\<close> library (the tests patch it);
  it is the parameter \<open>est\<close> of the model.
\<close>

record chunker_state =
  current_chunk_text :: string
  current_chunk_start_time :: real
  chunk_segments :: "segment list"

type_synonym estimator = "string \<Rightarrow> int"

text \<open>
  One \<open>yield\<close>: the chunk dictionary, paired with the value of \<open>chunk_segments\<close> at
  that moment (the segments the chunk covers). \<open>chunk_segments[-1]\<close> raises
  \<open>IndexError\<close> on an empty list.
\<close>

type_synonym emission = "chunk \<times> segment list"

definition emit :: "chunker_state \<Rightarrow> py_error + emission" where
  "emit st =
     (case chunk_segments st of
        [] \<Rightarrow> Inl IndexError
      | _ # _ \<Rightarrow>
          Inr (\<lparr>chunk_text = strip (current_chunk_text st),
                start_time = current_chunk_start_time st,
                end_time = seg_end (last (chunk_segments st))\<rparr>,
               chunk_segments st))"

text \<open>
  The body of the \<open>for\<close> loop for one segment: the emissions of this iteration (none
  or one) and the state after it.
\<close>

definition chunk_step ::
  "estimator \<Rightarrow> int \<Rightarrow> chunker_state \<Rightarrow> segment \<Rightarrow> py_error + (emission list \<times> chunker_state)" where
  "chunk_step est max_tokens_per_chunk st seg =
     (let segment_text = seg_text seg;
          potential_chunk_text = current_chunk_text st @ '' '' @ segment_text
      in if est potential_chunk_text > max_tokens_per_chunk then
           (let st' = \<lparr>current_chunk_text = segment_text,
                       current_chunk_start_time = seg_start seg,
                       chunk_segments = [seg]\<rparr>
            in if current_chunk_text st \<noteq> [] then
                 (case emit st of Inl e \<Rightarrow> Inl e | Inr c \<Rightarrow> Inr ([c], st'))
               else Inr ([], st'))
         else
           Inr ([], st\<lparr>current_chunk_text := potential_chunk_text,
                       chunk_segments := chunk_segments st @ [seg]\<rparr>))"

text \<open>The code after the loop: the last remaining chunk.\<close>

definition final_yield :: "chunker_state \<Rightarrow> py_error + emission list" where
  "final_yield st =
     (if current_chunk_text st \<noteq> [] then
        (case emit st of Inl e \<Rightarrow> Inl e | Inr c \<Rightarrow> Inr [c])
      else Inr [])"

text \<open>The loop, then the final yield; an exception ends the run.\<close>

fun scan ::
  "estimator \<Rightarrow> int \<Rightarrow> chunker_state \<Rightarrow> segment list \<Rightarrow> py_error + emission list" where
  "scan est m st [] = final_yield st"
| "scan est m st (seg # rest) =
     (case chunk_step est m st seg of
        Inl e \<Rightarrow> Inl e
      | Inr (out, st') \<Rightarrow>
          (case scan est m st' rest of
             Inl e \<Rightarrow> Inl e
           | Inr cs \<Rightarrow> Inr (out @ cs)))"

text \<open>The state after the loop has run over a prefix of the input.\<close>

fun run_steps ::
  "estimator \<Rightarrow> int \<Rightarrow> chunker_state \<Rightarrow> segment list \<Rightarrow> py_error + chunker_state" where
  "run_steps est m st [] = Inr st"
| "run_steps est m st (seg # rest) =
     (case chunk_step est m st seg of
        Inl e \<Rightarrow> Inl e
      | Inr (out, st') \<Rightarrow> run_steps est m st' rest)"

definition initial_state :: "segment list \<Rightarrow> chunker_state" where
  "initial_state segments =
     \<lparr>current_chunk_text = [],
      current_chunk_start_time = seg_start (hd segments),
      chunk_segments = []\<rparr>"

text \<open>
  The generator, run to its end: every yield with the segments it covers
  (\<open>chunk_trace\<close>), and the chunks alone as the caller sees them.
\<close>

definition chunk_trace :: "estimator \<Rightarrow> segment list \<Rightarrow> int \<Rightarrow> py_error + emission list" where
  "chunk_trace est segments max_tokens_per_chunk =
     (if segments = [] then Inr []
      else scan est max_tokens_per_chunk (initial_state segments) segments)"

definition chunk_transcript_segments ::
  "estimator \<Rightarrow> segment list \<Rightarrow> int \<Rightarrow> py_error + chunk list" where
  "chunk_transcript_segments est segments max_tokens_per_chunk =
     (case chunk_trace est segments max_tokens_per_chunk of
        Inl e \<Rightarrow> Inl e
      | Inr out \<Rightarrow> Inr (map fst out))"

section \<open>\<open>format_timestamp\<close>\<close>

text \<open>
  \<open>int(seconds)\<close> truncates towards zero; \<open>divmod\<close> on integers is floor division
  with its remainder (the divisor is the constant 60 here).
\<close>

definition py_int :: "real \<Rightarrow> int" where
  "py_int x = (if 0 \<le> x then \<lfloor>x\<rfloor> else \<lceil>x\<rceil>)"

definition py_divmod :: "int \<Rightarrow> int \<Rightarrow> int \<times> int" where
  "py_divmod a b = (a div b, a mod b)"

definition digit_char :: "nat \<Rightarrow> char" where
  "digit_char d = ''0123456789'' ! d"

fun decimal :: "nat \<Rightarrow> string" where
  "decimal n = (if n < 10 then [digit_char n] else decimal (n div 10) @ [digit_char (n mod 10)])"

declare decimal.simps [simp del]

text \<open>
  The format specification \<open>02d\<close>: decimal digits, filled with zeros after the sign up
  to a total width of two.
\<close>

definition format_02d :: "int \<Rightarrow> string" where
  "format_02d n =
     (let ds = decimal (nat \<bar>n\<bar>)
      in if n < 0 then ''-'' @ replicate (1 - length ds) CHR ''0'' @ ds
         else replicate (2 - length ds) CHR ''0'' @ ds)"

definition format_timestamp :: "real \<Rightarrow> string" where
  "format_timestamp seconds =
     (if seconds < 0 then ''00:00''
      else
        (let (minutes, secs) = py_divmod (py_int seconds) 60;
             (hours, minutes) = py_divmod minutes 60
         in if hours > 0 then
              format_02d hours @ '':'' @ format_02d minutes @ '':'' @ format_02d secs
            else format_02d minutes @ '':'' @ format_02d secs))"

section \<open>The fixtures of \<open>tests/test_utils.py\<close>\<close>

definition MOCK_SEGMENTS :: "segment list" where
  "MOCK_SEGMENTS =
     [\<lparr>seg_text = '' This is the first sentence.'', seg_start = 0.0, seg_end = 2.0\<rparr>,
      \<lparr>seg_text = '' And this is a much longer second sentence designed to take up more tokens.'',
       seg_start = 2.5, seg_end = 7.0\<rparr>,
      \<lparr>seg_text = '' A third one.'', seg_start = 7.5, seg_end = 8.5\<rparr>,
      \<lparr>seg_text = '' Fourth segment here.'', seg_start = 9.0, seg_end = 10.0\<rparr>,
      \<lparr>seg_text = '' The final segment is quite long as well, pushing the token limit.'',
       seg_start = 10.5, seg_end = 15.0\<rparr>]"

definition token_counts :: "(string \<times> int) list" where
  "token_counts =
     [('' This is the first sentence.'', 10),
      ('' And this is a much longer second sentence designed to take up more tokens.'', 30),
      ('' A third one.'', 5),
      ('' Fourth segment here.'', 5),
      ('' The final segment is quite long as well, pushing the token limit.'', 25)]"

text \<open>The substring test \<open>s in text\<close>.\<close>

fun starts_with :: "string \<Rightarrow> string \<Rightarrow> bool" where
  "starts_with [] ys = True"
| "starts_with (x # xs) [] = False"
| "starts_with (x # xs) (y # ys) = (x = y \<and> starts_with xs ys)"

fun py_in :: "string \<Rightarrow> string \<Rightarrow> bool" where
  "py_in s [] = (s = [])"
| "py_in s (c # cs) = (starts_with s (c # cs) \<or> py_in s cs)"

text \<open>
  The patched estimator of \<open>test_chunking_with_token_limit\<close>:
  \<open>lambda text: sum(token_counts[s] for s in token_counts if s in text)\<close>;
  the one of \<open>test_chunking_no_split_needed\<close> returns 5.
\<close>

definition mock_estimate_tokens :: estimator where
  "mock_estimate_tokens text_arg =
     sum_list (map snd (filter (\<lambda>(s, n). py_in s text_arg) token_counts))"

definition mock_estimate_five :: estimator where
  "mock_estimate_five text_arg = 5"

section \<open>Further estimators and inputs\<close>

text \<open>
  The estimator is any function from strings to integers. The number of characters
  is one; the examples below use it on inputs of their own.
\<close>

definition character_count :: estimator where
  "character_count s = int (length s)"


text \<open>
  Estimators that rate a string by its first character, or by its last one.
\<close>

fun leading_space_cheap :: estimator where
  "leading_space_cheap [] = 100"
| "leading_space_cheap (c # cs) = (if c = CHR '' '' then 1 else 100)"

fun leading_space_dear :: estimator where
  "leading_space_dear [] = 1"
| "leading_space_dear (c # cs) = (if c = CHR '' '' then 100 else 1)"


definition two_segments :: "segment list" where
  "two_segments =
     [\<lparr>seg_text = ''a'', seg_start = 0, seg_end = 1\<rparr>,
      \<lparr>seg_text = ''b'', seg_start = 1, seg_end = 2\<rparr>]"


definition long_segments :: "segment list" where
  "long_segments =
     [\<lparr>seg_text = ''ab'', seg_start = 0, seg_end = 1\<rparr>,
      \<lparr>seg_text = ''cdefgh'', seg_start = 1, seg_end = 2\<rparr>,
      \<lparr>seg_text = ''ij'', seg_start = 2, seg_end = 3\<rparr>]"

section \<open>Notions used by the statements\<close>

text \<open>\<open>" ".join(ts)\<close>: the texts separated by single spaces.\<close>

fun join_space :: "string list \<Rightarrow> string" where
  "join_space [] = []"
| "join_space [t] = t"
| "join_space (t # u # ts) = t @ '' '' @ join_space (u # ts)"

text \<open>
  A chunk \<open>c\<close> is the chunk of the run \<open>r\<close> of segments: the run is not empty, the
  text is the trimmed join of the run's texts, and the times are the start of the
  first and the end of the last segment of the run.
\<close>

definition chunk_covers :: "chunk \<Rightarrow> segment list \<Rightarrow> bool" where
  "chunk_covers c r =
     (r \<noteq> [] \<and> chunk_text c = strip (join_space (map seg_text r))
      \<and> start_time c = seg_start (hd r) \<and> end_time c = seg_end (last r))"

text \<open>
  The loop invariant, with \<open>rest\<close> the segments not yet scanned: the accumulated text
  is the join of the accumulated segments' texts, possibly after one leading space;
  text has been accumulated only together with a segment; the recorded start time is
  that of the first accumulated segment (of the first segment to come, before any
  has been accumulated).
\<close>

definition acc_inv :: "chunker_state \<Rightarrow> segment list \<Rightarrow> bool" where
  "acc_inv st rest =
     ((current_chunk_text st = join_space (map seg_text (chunk_segments st))
        \<or> (chunk_segments st \<noteq> []
            \<and> current_chunk_text st = '' '' @ join_space (map seg_text (chunk_segments st))))
      \<and> (current_chunk_text st \<noteq> [] \<longrightarrow> chunk_segments st \<noteq> [])
      \<and> current_chunk_start_time st = seg_start (hd (chunk_segments st @ rest)))"

text \<open>
  The bound on the accumulated string: when two or more segments are accumulated, its
  estimate is within the budget.
\<close>

definition within_budget :: "estimator \<Rightarrow> int \<Rightarrow> chunker_state \<Rightarrow> bool" where
  "within_budget est m st =
     (2 \<le> length (chunk_segments st) \<longrightarrow> est (current_chunk_text st) \<le> m)"


section \<open>The generator on a heap\<close>

text \<open>
  A second model of \<open>chunk_transcript_segments\<close>, with the objects of the Python heap
  made explicit, for the statements about the objects an invocation reads and writes.
  A reference is a number. The heap holds list objects, the elements of which are
  references to segment dictionaries, and the segment dictionaries; strings and
  numbers are immutable values. The references from \<open>next_ref\<close> on are not yet
  allocated.
\<close>

type_synonym ref = nat

record heap =
  list_objs :: "ref \<Rightarrow> ref list"
  dict_objs :: "ref \<Rightarrow> segment"
  next_ref :: ref

text \<open>
  The local variables of the generator: \<open>chunk_segments\<close> is a reference to a list
  object.
\<close>

record gen_frame =
  local_chunk_text :: string
  local_start_time :: real
  local_chunk_segments :: ref

text \<open>
  A list display (\<open>[]\<close>, \<open>[segment]\<close>) allocates a new list object;
  \<open>chunk_segments.append(segment)\<close> writes to the list object \<open>chunk_segments\<close>
  refers to.
\<close>

definition new_list :: "ref list \<Rightarrow> heap \<Rightarrow> ref \<times> heap" where
  "new_list xs h =
     (next_ref h, h\<lparr>list_objs := (list_objs h)(next_ref h := xs), next_ref := Suc (next_ref h)\<rparr>)"

definition list_append :: "ref \<Rightarrow> ref \<Rightarrow> heap \<Rightarrow> heap" where
  "list_append l x h = h\<lparr>list_objs := (list_objs h)(l := list_objs h l @ [x])\<rparr>"

text \<open>One \<open>yield\<close>: the chunk dictionary, built from values read in the heap.\<close>

definition heap_emit :: "heap \<Rightarrow> gen_frame \<Rightarrow> py_error + chunk" where
  "heap_emit h fr =
     (case list_objs h (local_chunk_segments fr) of
        [] \<Rightarrow> Inl IndexError
      | _ # _ \<Rightarrow>
          Inr \<lparr>chunk_text = strip (local_chunk_text fr),
               start_time = local_start_time fr,
               end_time = seg_end (dict_objs h (last (list_objs h (local_chunk_segments fr))))\<rparr>)"

text \<open>The body of the \<open>for\<close> loop, for the segment dictionary \<open>segment\<close> refers to.\<close>

definition heap_step ::
  "estimator \<Rightarrow> int \<Rightarrow> heap \<Rightarrow> gen_frame \<Rightarrow> ref \<Rightarrow> py_error + (chunk list \<times> heap \<times> gen_frame)" where
  "heap_step est max_tokens_per_chunk h fr segment =
     (let segment_text = seg_text (dict_objs h segment);
          potential_chunk_text = local_chunk_text fr @ '' '' @ segment_text
      in if est potential_chunk_text > max_tokens_per_chunk then
           (let (l, h') = new_list [segment] h;
                fr' = \<lparr>local_chunk_text = segment_text,
                       local_start_time = seg_start (dict_objs h' segment),
                       local_chunk_segments = l\<rparr>
            in if local_chunk_text fr \<noteq> [] then
                 (case heap_emit h fr of Inl e \<Rightarrow> Inl e | Inr c \<Rightarrow> Inr ([c], h', fr'))
               else Inr ([], h', fr'))
         else
           Inr ([], list_append (local_chunk_segments fr) segment h,
                fr\<lparr>local_chunk_text := potential_chunk_text\<rparr>))"

text \<open>
  The \<open>for\<close> loop and the final yield. The list iterator holds the index \<open>i\<close> of the
  next element and reads the list object in the heap of that moment; the loop ends
  when the index has reached the length of the list. The recursion is bounded by
  \<open>fuel\<close>; \<open>None\<close> is a run that has not ended within it.
\<close>

fun heap_scan ::
  "nat \<Rightarrow> estimator \<Rightarrow> int \<Rightarrow> ref \<Rightarrow> nat \<Rightarrow> heap \<Rightarrow> gen_frame
     \<Rightarrow> (py_error + chunk list \<times> heap) option" where
  "heap_scan 0 est m segments i h fr = None"
| "heap_scan (Suc fuel) est m segments i h fr =
     (if i < length (list_objs h segments) then
        (case heap_step est m h fr (list_objs h segments ! i) of
           Inl e \<Rightarrow> Some (Inl e)
         | Inr (out, h', fr') \<Rightarrow>
             (case heap_scan fuel est m segments (Suc i) h' fr' of
                None \<Rightarrow> None
              | Some (Inl e) \<Rightarrow> Some (Inl e)
              | Some (Inr (cs, h'')) \<Rightarrow> Some (Inr (out @ cs, h''))))
      else if local_chunk_text fr \<noteq> [] then
        (case heap_emit h fr of Inl e \<Rightarrow> Some (Inl e) | Inr c \<Rightarrow> Some (Inr ([c], h)))
      else Some (Inr ([], h)))"

text \<open>The generator, run to its end: its chunks and the heap it leaves.\<close>

definition heap_chunk_transcript_segments ::
  "nat \<Rightarrow> estimator \<Rightarrow> heap \<Rightarrow> ref \<Rightarrow> int \<Rightarrow> (py_error + chunk list \<times> heap) option" where
  "heap_chunk_transcript_segments fuel est h segments max_tokens_per_chunk =
     (let (l, h1) = new_list [] h
      in if list_objs h1 segments = [] then Some (Inr ([], h1))
         else heap_scan fuel est max_tokens_per_chunk segments 0 h1
                \<lparr>local_chunk_text = [],
                 local_start_time = seg_start (dict_objs h1 (list_objs h1 segments ! 0)),
                 local_chunk_segments = l\<rparr>)"

text \<open>The segment values a list object refers to.\<close>

definition segments_at :: "heap \<Rightarrow> ref \<Rightarrow> segment list" where
  "segments_at h segments = map (dict_objs h) (list_objs h segments)"

text \<open>The state of the functional model that a heap and a frame stand for.\<close>

definition abs_state :: "heap \<Rightarrow> gen_frame \<Rightarrow> chunker_state" where
  "abs_state h fr =
     \<lparr>current_chunk_text = local_chunk_text fr,
      current_chunk_start_time = local_start_time fr,
      chunk_segments = segments_at h (local_chunk_segments fr)\<rparr>"

text \<open>
  What an invocation leaves unchanged from the heap \<open>h\<close> to the heap \<open>h'\<close>: every
  segment dictionary and every list object allocated in \<open>h\<close>. The list the frame
  refers to has been allocated after \<open>h0\<close>.
\<close>

definition heap_frame :: "heap \<Rightarrow> heap \<Rightarrow> bool" where
  "heap_frame h h' =
     (dict_objs h' = dict_objs h \<and> next_ref h \<le> next_ref h'
      \<and> (\<forall>l < next_ref h. list_objs h' l = list_objs h l))"

definition frame_fresh :: "heap \<Rightarrow> heap \<Rightarrow> gen_frame \<Rightarrow> bool" where
  "frame_fresh h0 h fr =
     (next_ref h0 \<le> local_chunk_segments fr \<and> local_chunk_segments fr < next_ref h)"

text \<open>
  Two heaps in which a list refers to the two segments of \<open>two_segments\<close>, at different
  references and beside different objects.
\<close>

definition example_heap :: heap where
  "example_heap =
     \<lparr>list_objs = (\<lambda>r. [])(0 := [0, 1]),
      dict_objs = (\<lambda>r. two_segments ! (if r = 0 then 0 else 1)),
      next_ref = 1\<rparr>"

definition other_heap :: heap where
  "other_heap =
     \<lparr>list_objs = (\<lambda>r. [])(3 := [4, 6], 1 := [6]),
      dict_objs = (\<lambda>r. two_segments ! (if r = 4 then 0 else 1)),
      next_ref = 5\<rparr>"

section \<open>Empty input\<close>

text \<open>
  Claim C6. Applied to the empty segment list, \<open>chunk_transcript_segments\<close> yields no
  chunk and raises nothing, whatever the budget (so for every positive one).
\<close>

theorem chunk_empty_input: "chunk_transcript_segments est [] N = Inr []"
  by (simp add: chunk_transcript_segments_def chunk_trace_def)

section \<open>The loop invariant\<close>

lemma join_space_snoc:
  "ts \<noteq> [] \<Longrightarrow> join_space (ts @ [t]) = join_space ts @ '' '' @ t"
  by (induction ts rule: join_space.induct) auto

lemma py_isspace_space: "py_isspace CHR '' ''"
  by (simp add: py_isspace_def)

lemma strip_leading_space: "strip (CHR '' '' # s) = strip s"
  by (simp add: strip_def py_isspace_space)

lemma emit_covers:
  assumes "acc_inv st rest" and "current_chunk_text st \<noteq> []"
  shows "\<exists>c. emit st = Inr (c, chunk_segments st) \<and> chunk_covers c (chunk_segments st)"
  using assms
  by (auto simp: acc_inv_def emit_def chunk_covers_def strip_leading_space split: list.splits)

lemma acc_inv_initial: "acc_inv (initial_state segments) segments"
  by (simp add: acc_inv_def initial_state_def)

lemma chunk_step_inv:
  assumes "acc_inv st (seg # rest)"
  shows "\<exists>out st'. chunk_step est m st seg = Inr (out, st') \<and> acc_inv st' rest
           \<and> chunk_segments st' \<noteq> []
           \<and> (\<forall>e \<in> set out. chunk_covers (fst e) (snd e))"
proof (cases "est (current_chunk_text st @ '' '' @ seg_text seg) > m")
  case over: True
  show ?thesis
  proof (cases "current_chunk_text st = []")
    case True
    with over show ?thesis
      by (simp add: chunk_step_def Let_def acc_inv_def)
  next
    case False
    from emit_covers [OF assms False] obtain c where
      "emit st = Inr (c, chunk_segments st)" "chunk_covers c (chunk_segments st)" by blast
    with over False show ?thesis
      by (simp add: chunk_step_def Let_def acc_inv_def)
  qed
next
  case within: False
  show ?thesis
  proof (cases "chunk_segments st = []")
    case True
    with within assms show ?thesis
      by (auto simp: chunk_step_def Let_def acc_inv_def)
  next
    case False
    with within assms show ?thesis
      by (auto simp: chunk_step_def Let_def acc_inv_def join_space_snoc)
  qed
qed

lemma final_yield_inv:
  assumes "acc_inv st []"
  shows "\<exists>out. final_yield st = Inr out \<and> (\<forall>e \<in> set out. chunk_covers (fst e) (snd e))"
proof (cases "current_chunk_text st = []")
  case True
  then show ?thesis by (simp add: final_yield_def)
next
  case False
  from emit_covers [OF assms False] obtain c where
    "emit st = Inr (c, chunk_segments st)" "chunk_covers c (chunk_segments st)" by blast
  with False show ?thesis by (simp add: final_yield_def)
qed

lemma scan_inv:
  assumes "acc_inv st rest"
  shows "\<exists>out. scan est m st rest = Inr out \<and> (\<forall>e \<in> set out. chunk_covers (fst e) (snd e))"
  using assms
proof (induction rest arbitrary: st)
  case Nil
  then show ?case using final_yield_inv [of st] by simp
next
  case (Cons seg rest)
  from chunk_step_inv [OF Cons.prems, of est m]
  obtain out st' where s: "chunk_step est m st seg = Inr (out, st')"
    and i: "acc_inv st' rest" and o: "\<forall>e \<in> set out. chunk_covers (fst e) (snd e)"
    by blast
  from Cons.IH [OF i] obtain cs where c: "scan est m st' rest = Inr cs"
    and oc: "\<forall>e \<in> set cs. chunk_covers (fst e) (snd e)"
    by blast
  show ?case using s c o oc by auto
qed







section \<open>The runs of the test fixtures\<close>

lemma trace_tokens_40:
  "chunk_trace mock_estimate_tokens MOCK_SEGMENTS 40 =
     Inr [(\<lparr>chunk_text = ''This is the first sentence.  And this is a much longer second sentence designed to take up more tokens.'',
             start_time = 0, end_time = 7\<rparr>, take 2 MOCK_SEGMENTS),
          (\<lparr>chunk_text = ''A third one.  Fourth segment here.  The final segment is quite long as well, pushing the token limit.'',
             start_time = 7.5, end_time = 15\<rparr>, drop 2 MOCK_SEGMENTS)]"
  by (simp add: chunk_trace_def initial_state_def MOCK_SEGMENTS_def chunk_step_def emit_def
      final_yield_def Let_def mock_estimate_tokens_def token_counts_def strip_def py_isspace_def)

lemma trace_five_1000:
  "chunk_trace mock_estimate_five MOCK_SEGMENTS 1000 =
     Inr [(\<lparr>chunk_text = ''This is the first sentence.  And this is a much longer second sentence designed to take up more tokens.  A third one.  Fourth segment here.  The final segment is quite long as well, pushing the token limit.'',
             start_time = 0, end_time = 15\<rparr>, MOCK_SEGMENTS)]"
  by (simp add: chunk_trace_def initial_state_def MOCK_SEGMENTS_def chunk_step_def emit_def
      final_yield_def Let_def mock_estimate_five_def strip_def py_isspace_def)

section \<open>Coverage\<close>




section \<open>Termination and the number of chunks\<close>




section \<open>The reference scenarios\<close>

text \<open>
  Claim C5. With the five reference segments, the estimator of the test (the costs
  10, 30, 5, 5, 25 of the segment texts contained in the candidate string, summed) and
  the budget 40, the run yields exactly two chunks: the first covers segments 1 and 2
  and ends at 7.0, the second covers segments 3 to 5 and starts at 7.5. With the
  constant estimate 5 and the budget 1000 it yields exactly one chunk, from 0.0 to
  15.0.
\<close>

theorem reference_scenarios:
  "(\<exists>c1 c2. chunk_trace mock_estimate_tokens MOCK_SEGMENTS 40
               = Inr [(c1, take 2 MOCK_SEGMENTS), (c2, drop 2 MOCK_SEGMENTS)]
            \<and> chunk_transcript_segments mock_estimate_tokens MOCK_SEGMENTS 40 = Inr [c1, c2]
            \<and> end_time c1 = 7.0 \<and> start_time c2 = 7.5)
   \<and> (\<exists>c. chunk_trace mock_estimate_five MOCK_SEGMENTS 1000 = Inr [(c, MOCK_SEGMENTS)]
            \<and> chunk_transcript_segments mock_estimate_five MOCK_SEGMENTS 1000 = Inr [c]
            \<and> start_time c = 0.0 \<and> end_time c = 15.0)"
  by (simp add: chunk_transcript_segments_def trace_tokens_40 trace_five_1000)

section \<open>The fields of a chunk\<close>

lemma strip_nonempty_iff: "strip s \<noteq> [] \<longleftrightarrow> (\<exists>c \<in> set s. \<not> py_isspace c)"
proof
  assume "strip s \<noteq> []"
  then have "dropWhile py_isspace s \<noteq> []"
    by (cases "dropWhile py_isspace s = []") (simp_all add: strip_def)
  then show "\<exists>c \<in> set s. \<not> py_isspace c" by (simp add: dropWhile_eq_Nil_conv)
next
  assume "\<exists>c \<in> set s. \<not> py_isspace c"
  then have n: "dropWhile py_isspace s \<noteq> []" by (simp add: dropWhile_eq_Nil_conv)
  then have "\<not> py_isspace (hd (dropWhile py_isspace s))" by (rule hd_dropWhile)
  moreover from n have "hd (dropWhile py_isspace s) \<in> set (rev (dropWhile py_isspace s))"
    by simp
  ultimately have "dropWhile py_isspace (rev (dropWhile py_isspace s)) \<noteq> []"
    unfolding dropWhile_eq_Nil_conv by blast
  then show "strip s \<noteq> []" by (simp add: strip_def)
qed

lemma set_join_space:
  "set (join_space ts) = (\<Union>t \<in> set ts. set t) \<union> (if length ts < 2 then {} else {CHR '' ''})"
  by (induction ts rule: join_space.induct) auto

lemma strip_join_nonempty_iff:
  "strip (join_space ts) \<noteq> [] \<longleftrightarrow> (\<exists>t \<in> set ts. \<exists>c \<in> set t. \<not> py_isspace c)"
  by (auto simp: strip_nonempty_iff set_join_space py_isspace_space split: if_splits)

lemma chunk_step_contiguous:
  assumes "chunk_step est m st seg = Inr (out, st')"
  shows "(\<forall>e \<in> set out. snd e = chunk_segments st)
         \<and> (\<exists>dropped. chunk_segments st @ [seg] = dropped @ chunk_segments st')"
  using assms
  by (auto simp: chunk_step_def emit_def Let_def split: if_splits list.splits)

lemma scan_contiguous:
  assumes "scan est m st rest = Inr out" and "e \<in> set out"
  shows "\<exists>pre suf. chunk_segments st @ rest = pre @ snd e @ suf"
  using assms
proof (induction rest arbitrary: st out)
  case Nil
  then have "snd e = chunk_segments st"
    by (auto simp: final_yield_def emit_def split: if_splits list.splits)
  then have "chunk_segments st @ [] = [] @ snd e @ []" by simp
  then show ?case by blast
next
  case (Cons seg rest)
  from Cons.prems(1) obtain o1 st' cs where
    s: "chunk_step est m st seg = Inr (o1, st')" and
    c: "scan est m st' rest = Inr cs" and o: "out = o1 @ cs"
    by (auto split: sum.splits)
  from chunk_step_contiguous [OF s] obtain dropped where
    a: "\<forall>e \<in> set o1. snd e = chunk_segments st" and
    d: "chunk_segments st @ [seg] = dropped @ chunk_segments st'" by blast
  from Cons.prems(2) o consider "e \<in> set o1" | "e \<in> set cs" by auto
  then show ?case
  proof cases
    case 1
    with a have "chunk_segments st @ seg # rest = [] @ snd e @ (seg # rest)" by simp
    then show ?thesis by blast
  next
    case 2
    from Cons.IH [OF c 2] obtain pre suf where
      "chunk_segments st' @ rest = pre @ snd e @ suf" by blast
    then have "(dropped @ chunk_segments st') @ rest = (dropped @ pre) @ snd e @ suf" by simp
    with d have "chunk_segments st @ seg # rest = (dropped @ pre) @ snd e @ suf"
      by (metis append.assoc append_Cons append_Nil)
    then show ?thesis by blast
  qed
qed

lemma run_start_le_end:
  assumes "segments = pre @ r @ suf" and "r \<noteq> []"
    and "\<forall>s \<in> set segments. seg_start s \<le> seg_end s"
    and "sorted (map seg_start segments)"
  shows "seg_start (hd r) \<le> seg_end (last r)"
proof -
  from assms(1,4) have "sorted (map seg_start r)" by (simp add: sorted_append)
  with assms(2) have "seg_start (hd r) \<le> seg_start (last r)"
  proof (cases r)
    case Nil
    with assms(2) show ?thesis by simp
  next
    case (Cons a list)
    show ?thesis
    proof (cases "list = []")
      case True
      with Cons show ?thesis by simp
    next
      case False
      then have "last list \<in> set list" by (rule last_in_set)
      with Cons False \<open>sorted (map seg_start r)\<close> show ?thesis by simp
    qed
  qed
  moreover from assms(1,2,3) have "seg_start (last r) \<le> seg_end (last r)" by simp
  ultimately show ?thesis by simp
qed

text \<open>
  Claim C4, as amended. Every chunk the generator yields is built from a non-empty
  run of consecutive input segments: its text is the run's texts joined by single
  spaces and then trimmed, its \<open>start_time\<close> is the start of the run's first segment,
  its \<open>end_time\<close> the end of the run's last segment, and, when every segment has
  \<open>end \<ge> start\<close> and the starts are in non-decreasing order,
  \<open>start_time \<le> end_time\<close>. The text is non-empty exactly when some segment of the
  run has a character that is not white space.
\<close>

theorem chunk_fields:
  assumes "chunk_transcript_segments est segments m = Inr cs" and "c \<in> set cs"
  shows "\<exists>out r. chunk_trace est segments m = Inr out \<and> (c, r) \<in> set out
           \<and> r \<noteq> [] \<and> (\<exists>pre suf. segments = pre @ r @ suf)
           \<and> chunk_text c = strip (join_space (map seg_text r))
           \<and> (chunk_text c \<noteq> [] \<longleftrightarrow> (\<exists>s \<in> set r. \<exists>ch \<in> set (seg_text s). \<not> py_isspace ch))
           \<and> start_time c = seg_start (hd r)
           \<and> end_time c = seg_end (last r)
           \<and> ((\<forall>s \<in> set segments. seg_start s \<le> seg_end s) \<and> sorted (map seg_start segments)
                \<longrightarrow> start_time c \<le> end_time c)"
proof -
  from assms obtain out where t: "chunk_trace est segments m = Inr out" and cs: "cs = map fst out"
    by (auto simp: chunk_transcript_segments_def split: sum.splits)
  with assms(2) obtain r where e: "(c, r) \<in> set out" by auto
  from e t have ne: "segments \<noteq> []" by (auto simp: chunk_trace_def split: if_splits)
  with t have s: "scan est m (initial_state segments) segments = Inr out"
    by (simp add: chunk_trace_def)
  from scan_inv [OF acc_inv_initial, of est m segments] s e
  have cov: "chunk_covers c r" by fastforce
  from scan_contiguous [OF s e] obtain pre suf where
    p: "segments = pre @ r @ suf" by (auto simp: initial_state_def)
  from cov have tx: "chunk_text c = strip (join_space (map seg_text r))"
    and r: "r \<noteq> []" and st: "start_time c = seg_start (hd r)"
    and en: "end_time c = seg_end (last r)"
    by (simp_all add: chunk_covers_def)
  have nonempty: "chunk_text c \<noteq> [] \<longleftrightarrow> (\<exists>s \<in> set r. \<exists>ch \<in> set (seg_text s). \<not> py_isspace ch)"
    by (simp add: tx strip_join_nonempty_iff)
  have order: "start_time c \<le> end_time c"
    if "\<forall>s \<in> set segments. seg_start s \<le> seg_end s" and "sorted (map seg_start segments)"
    using run_start_le_end [OF p r that] st en by simp
  from t e r p tx nonempty st en order show ?thesis by blast
qed

theorem chunk_fields_witness:
  "\<exists>out r c. chunk_trace mock_estimate_five MOCK_SEGMENTS 1000 = Inr out \<and> (c, r) \<in> set out
         \<and> r \<noteq> [] \<and> (\<exists>pre suf. MOCK_SEGMENTS = pre @ r @ suf)
         \<and> chunk_text c = strip (join_space (map seg_text r))
         \<and> chunk_text c \<noteq> []
         \<and> start_time c = seg_start (hd r)
         \<and> end_time c = seg_end (last r)
         \<and> start_time c \<le> end_time c"
proof -
  let ?c = "\<lparr>chunk_text = ''This is the first sentence.  And this is a much longer second sentence designed to take up more tokens.  A third one.  Fourth segment here.  The final segment is quite long as well, pushing the token limit.'',
             start_time = 0, end_time = 15\<rparr>"
  have run: "chunk_transcript_segments mock_estimate_five MOCK_SEGMENTS 1000 = Inr [?c]"
    by (simp add: chunk_transcript_segments_def trace_five_1000)
  have mem: "?c \<in> set [?c]" by simp
  have ordered: "(\<forall>s \<in> set MOCK_SEGMENTS. seg_start s \<le> seg_end s)
                 \<and> sorted (map seg_start MOCK_SEGMENTS)"
    by (simp add: MOCK_SEGMENTS_def)
  from chunk_fields [OF run mem] ordered show ?thesis by fastforce
qed

text \<open>
  The claim as written fails on the non-emptiness of the text: a segment whose text
  is a single space is accumulated (the accumulated string is not empty) and yielded
  with the trimmed, empty text.
\<close>

theorem chunk_text_empty_counterexample:
  "chunk_transcript_segments mock_estimate_five
     [\<lparr>seg_text = '' '', seg_start = 0, seg_end = 1\<rparr>] 1000
   = Inr [\<lparr>chunk_text = [], start_time = 0, end_time = 1\<rparr>]"
  by (simp add: chunk_transcript_segments_def chunk_trace_def initial_state_def chunk_step_def
      emit_def final_yield_def Let_def mock_estimate_five_def strip_def py_isspace_def)

section \<open>The states of the scan\<close>

lemma run_steps_snoc:
  "run_steps est m st (pre @ [seg]) =
     (case run_steps est m st pre of
        Inl e \<Rightarrow> Inl e
      | Inr st' \<Rightarrow> (case chunk_step est m st' seg of Inl e \<Rightarrow> Inl e | Inr (out, st'') \<Rightarrow> Inr st''))"
  by (induction pre arbitrary: st) (auto split: sum.splits)

lemma run_steps_invariant:
  assumes "acc_inv st (pre @ suf)" and "I st"
    and step: "\<And>st seg rest out st'.
                 acc_inv st (seg # rest) \<Longrightarrow> I st \<Longrightarrow> chunk_step est m st seg = Inr (out, st')
                 \<Longrightarrow> I st'"
  shows "\<exists>st'. run_steps est m st pre = Inr st' \<and> acc_inv st' suf \<and> I st'"
  using assms(1,2)
proof (induction pre arbitrary: st)
  case Nil
  then show ?case by simp
next
  case (Cons seg pre)
  from Cons.prems(1) have a: "acc_inv st (seg # (pre @ suf))" by simp
  from chunk_step_inv [OF a, of est m]
  obtain out st1 where s: "chunk_step est m st seg = Inr (out, st1)"
    and i: "acc_inv st1 (pre @ suf)" by blast
  from step [OF a Cons.prems(2) s] have b: "I st1" .
  from Cons.IH [OF i b] s show ?case by simp
qed

lemma final_yield_emission:
  assumes "final_yield st = Inr out" and "e \<in> set out"
  shows "current_chunk_text st \<noteq> [] \<and> emit st = Inr e"
proof (cases "current_chunk_text st = []")
  case True
  with assms show ?thesis by (simp add: final_yield_def)
next
  case False
  show ?thesis
  proof (cases "emit st")
    case (Inl x)
    with False assms show ?thesis by (simp add: final_yield_def)
  next
    case (Inr c)
    with False assms show ?thesis by (auto simp add: final_yield_def)
  qed
qed

lemma chunk_step_emission:
  assumes "chunk_step est m st seg = Inr (out, st')" and "e \<in> set out"
  shows "current_chunk_text st \<noteq> [] \<and> emit st = Inr e"
proof (cases "m < est (current_chunk_text st @ '' '' @ seg_text seg)")
  case False
  with assms show ?thesis by (simp add: chunk_step_def Let_def)
next
  case over: True
  show ?thesis
  proof (cases "current_chunk_text st = []")
    case True
    with over assms show ?thesis by (simp add: chunk_step_def Let_def)
  next
    case False
    show ?thesis
    proof (cases "emit st")
      case (Inl x)
      with False over assms show ?thesis by (simp add: chunk_step_def Let_def)
    next
      case (Inr c)
      with False over assms show ?thesis by (auto simp add: chunk_step_def Let_def)
    qed
  qed
qed

lemma scan_emissions:
  assumes "scan est m st segs = Inr out" and "e \<in> set out"
  shows "\<exists>pre suf st'. segs = pre @ suf \<and> run_steps est m st pre = Inr st'
           \<and> current_chunk_text st' \<noteq> [] \<and> emit st' = Inr e"
  using assms
proof (induction segs arbitrary: st out)
  case Nil
  then have "final_yield st = Inr out" by simp
  from final_yield_emission [OF this Nil.prems(2)]
  have "[] = [] @ [] \<and> run_steps est m st [] = Inr st
               \<and> current_chunk_text st \<noteq> [] \<and> emit st = Inr e" by simp
  then show ?case by (intro exI)
next
  case (Cons seg rest)
  from Cons.prems(1) obtain o1 st1 cs where
    s: "chunk_step est m st seg = Inr (o1, st1)" and
    c: "scan est m st1 rest = Inr cs" and o: "out = o1 @ cs"
    by (auto split: sum.splits)
  from Cons.prems(2) o consider "e \<in> set o1" | "e \<in> set cs" by auto
  then show ?case
  proof cases
    case 1
    from chunk_step_emission [OF s 1]
    have "seg # rest = [] @ (seg # rest) \<and> run_steps est m st [] = Inr st
               \<and> current_chunk_text st \<noteq> [] \<and> emit st = Inr e" by simp
    then show ?thesis by (intro exI)
  next
    case 2
    from Cons.IH [OF c 2] obtain pre suf st' where
      "rest = pre @ suf" "run_steps est m st1 pre = Inr st'"
      "current_chunk_text st' \<noteq> []" "emit st' = Inr e" by blast
    with s have "seg # rest = (seg # pre) @ suf \<and> run_steps est m st (seg # pre) = Inr st'
               \<and> current_chunk_text st' \<noteq> [] \<and> emit st' = Inr e" by simp
    then show ?thesis by (intro exI)
  qed
qed

lemma emit_fields:
  assumes "emit st = Inr (c, r)"
  shows "r = chunk_segments st \<and> chunk_text c = strip (current_chunk_text st)"
  using assms by (auto simp: emit_def split: list.splits)

text \<open>
  Every yield of a run happens in the state the loop has reached after some non-empty
  prefix of the input: the chunk's run is the accumulated segment list and its text is
  the accumulated string, trimmed.
\<close>

lemma trace_emission_state:
  assumes "chunk_trace est segments m = Inr out" and "(c, r) \<in> set out"
  shows "\<exists>pre suf st. segments = pre @ suf \<and> pre \<noteq> []
           \<and> run_steps est m (initial_state segments) pre = Inr st
           \<and> r = chunk_segments st \<and> chunk_text c = strip (current_chunk_text st)"
proof -
  from assms have ne: "segments \<noteq> []" by (auto simp: chunk_trace_def split: if_splits)
  with assms(1) have s: "scan est m (initial_state segments) segments = Inr out"
    by (simp add: chunk_trace_def)
  from scan_emissions [OF s assms(2)] obtain pre suf st where
    p: "segments = pre @ suf" and r: "run_steps est m (initial_state segments) pre = Inr st"
    and t: "current_chunk_text st \<noteq> []" and e: "emit st = Inr (c, r)" by blast
  have "pre \<noteq> []"
  proof
    assume "pre = []"
    with r have "st = initial_state segments" by simp
    with t show False by (simp add: initial_state_def)
  qed
  with p r emit_fields [OF e]
  have "segments = pre @ suf \<and> pre \<noteq> []
           \<and> run_steps est m (initial_state segments) pre = Inr st
           \<and> r = chunk_segments st \<and> chunk_text c = strip (current_chunk_text st)" by simp
  then show ?thesis by (intro exI)
qed

lemma reachable_invariant:
  assumes "run_steps est m (initial_state segments) pre = Inr st"
    and "segments = pre @ suf"
    and "I (initial_state segments)"
    and step: "\<And>st seg rest out st'.
                 acc_inv st (seg # rest) \<Longrightarrow> I st \<Longrightarrow> chunk_step est m st seg = Inr (out, st')
                 \<Longrightarrow> I st'"
  shows "acc_inv st suf \<and> I st"
proof -
  have a: "acc_inv (initial_state segments) (pre @ suf)"
    using acc_inv_initial [of segments] assms(2) by simp
  have "\<exists>st'. run_steps est m (initial_state segments) pre = Inr st' \<and> acc_inv st' suf \<and> I st'"
    using a assms(3)
  proof (rule run_steps_invariant)
    fix st seg rest out st'
    assume "acc_inv st (seg # rest)" and "I st" and "chunk_step est m st seg = Inr (out, st')"
    then show "I st'" by (rule step)
  qed
  then obtain st' where "run_steps est m (initial_state segments) pre = Inr st'"
    and "acc_inv st' suf" and "I st'" by blast
  with assms(1) show ?thesis by simp
qed

section \<open>The budget\<close>

lemma chunk_step_budget:
  assumes "chunk_step est m st seg = Inr (out, st')"
  shows "within_budget est m st'"
  using assms
  by (auto simp: chunk_step_def Let_def within_budget_def split: if_splits sum.splits)

lemma within_budget_initial: "within_budget est m (initial_state segments)"
  by (simp add: within_budget_def initial_state_def)

lemma reachable_within_budget:
  assumes "run_steps est m (initial_state segments) pre = Inr st" and "segments = pre @ suf"
  shows "within_budget est m st"
proof -
  have "acc_inv st suf \<and> within_budget est m st"
    using assms(1,2) within_budget_initial
  proof (rule reachable_invariant)
    fix st seg rest out st'
    assume "chunk_step est m st seg = Inr (out, st')"
    then show "within_budget est m st'" by (rule chunk_step_budget)
  qed
  then show ?thesis by simp
qed

lemma length_strip_le: "length (strip s) \<le> length s"
proof -
  have "length (strip s) \<le> length (dropWhile py_isspace s)"
    using length_dropWhile_le [of py_isspace "rev (dropWhile py_isspace s)"]
    by (simp add: strip_def)
  also have "\<dots> \<le> length s" by (rule length_dropWhile_le)
  finally show ?thesis .
qed

lemma cheap_trace:
  "chunk_trace leading_space_cheap two_segments 10 =
     Inr [(\<lparr>chunk_text = ''a b'', start_time = 0, end_time = 2\<rparr>, two_segments)]"
  by (simp add: chunk_trace_def initial_state_def two_segments_def chunk_step_def emit_def
      final_yield_def Let_def strip_def py_isspace_def)

lemma cheap_steps:
  "run_steps leading_space_cheap 10 (initial_state two_segments) two_segments =
     Inr \<lparr>current_chunk_text = '' a b'', current_chunk_start_time = 0,
          chunk_segments = two_segments\<rparr>"
  by (simp add: initial_state_def two_segments_def chunk_step_def emit_def Let_def)

lemma count_trace_two:
  "chunk_trace character_count two_segments 10 =
     Inr [(\<lparr>chunk_text = ''a b'', start_time = 0, end_time = 2\<rparr>, two_segments)]"
  by (simp add: chunk_trace_def initial_state_def two_segments_def chunk_step_def emit_def
      final_yield_def Let_def strip_def py_isspace_def character_count_def)

lemma count_trace_long:
  "chunk_trace character_count long_segments 5 =
     Inr [(\<lparr>chunk_text = ''ab'', start_time = 0, end_time = 1\<rparr>, [long_segments ! 0]),
          (\<lparr>chunk_text = ''cdefgh'', start_time = 1, end_time = 2\<rparr>, [long_segments ! 1]),
          (\<lparr>chunk_text = ''ij'', start_time = 2, end_time = 3\<rparr>, [long_segments ! 2])]"
  by (simp add: chunk_trace_def initial_state_def long_segments_def chunk_step_def emit_def
      final_yield_def Let_def strip_def py_isspace_def character_count_def)

text \<open>
  Claim C2, as amended. A chunk that covers two or more segments is the trimmed form
  of an accumulated string whose estimate is within the budget; the estimate of the
  chunk's own text is within the budget whenever the estimator never rates a string
  higher after trimming. A chunk that covers exactly one segment may exceed the
  budget (the second of three chunks of an example, of six characters against a
  budget of five).
\<close>

theorem multi_segment_chunk_within_budget:
  assumes "chunk_trace est segments m = Inr out" and "(c, r) \<in> set out" and "2 \<le> length r"
  shows "(\<exists>acc. chunk_text c = strip acc \<and> est acc \<le> m)
         \<and> ((\<forall>s. est (strip s) \<le> est s) \<longrightarrow> est (chunk_text c) \<le> m)
         \<and> (\<exists>out' c' s'. chunk_trace character_count long_segments 5 = Inr out'
                \<and> (c', [s']) \<in> set out' \<and> 5 < character_count (chunk_text c'))"
proof -
  from trace_emission_state [OF assms(1,2)] obtain pre suf st where
    p: "segments = pre @ suf" and
    s: "run_steps est m (initial_state segments) pre = Inr st" and
    r: "r = chunk_segments st" and
    t: "chunk_text c = strip (current_chunk_text st)" by blast
  from reachable_within_budget [OF s p] r assms(3)
  have b: "est (current_chunk_text st) \<le> m" by (simp add: within_budget_def)
  with t have 1: "\<exists>acc. chunk_text c = strip acc \<and> est acc \<le> m" by blast
  have 2: "est (chunk_text c) \<le> m" if "\<forall>s. est (strip s) \<le> est s"
  proof -
    from that have "est (strip (current_chunk_text st)) \<le> est (current_chunk_text st)" by blast
    with b t show ?thesis by simp
  qed
  let ?c = "\<lparr>chunk_text = ''cdefgh'', start_time = 1, end_time = 2\<rparr>"
  let ?out = "[(\<lparr>chunk_text = ''ab'', start_time = 0, end_time = 1\<rparr>, [long_segments ! 0]),
          (?c, [long_segments ! 1]),
          (\<lparr>chunk_text = ''ij'', start_time = 2, end_time = 3\<rparr>, [long_segments ! 2])]"
  have "chunk_trace character_count long_segments 5 = Inr ?out
        \<and> (?c, [long_segments ! 1]) \<in> set ?out
        \<and> 5 < character_count (chunk_text ?c)"
    by (simp add: count_trace_long character_count_def)
  then have 3: "\<exists>out' c' s'. chunk_trace character_count long_segments 5 = Inr out'
                \<and> (c', [s']) \<in> set out' \<and> 5 < character_count (chunk_text c')"
    by (intro exI)
  from 1 2 3 show ?thesis by blast
qed

theorem multi_segment_chunk_within_budget_witness:
  "(\<exists>acc. chunk_text \<lparr>chunk_text = ''a b'', start_time = 0, end_time = 2\<rparr> = strip acc
           \<and> character_count acc \<le> 10)
   \<and> character_count (chunk_text \<lparr>chunk_text = ''a b'', start_time = 0, end_time = 2\<rparr>) \<le> 10"
proof -
  have t: "chunk_trace character_count two_segments 10 =
     Inr [(\<lparr>chunk_text = ''a b'', start_time = 0, end_time = 2\<rparr>, two_segments)]"
    by (rule count_trace_two)
  have e: "(\<lparr>chunk_text = ''a b'', start_time = 0, end_time = 2\<rparr>, two_segments)
            \<in> set [(\<lparr>chunk_text = ''a b'', start_time = 0, end_time = 2\<rparr>, two_segments)]"
    by simp
  have l: "2 \<le> length two_segments" by (simp add: two_segments_def)
  have mono: "\<forall>s. character_count (strip s) \<le> character_count s"
    by (simp add: character_count_def length_strip_le)
  from multi_segment_chunk_within_budget [OF t e l] mono show ?thesis by blast
qed

text \<open>
  The claim as written fails: the budget is tested on the untrimmed candidate. With
  an estimator that rates a string by its first character (1 when it is a space, 100
  otherwise) and a budget of 10, the candidates \<open>" a"\<close> and \<open>" a b"\<close> pass the test, and
  the one chunk, covering both segments, has the text \<open>"a b"\<close>, estimated at 100.
\<close>

theorem trimmed_text_over_budget_counterexample:
  "chunk_transcript_segments leading_space_cheap two_segments 10
     = Inr [\<lparr>chunk_text = ''a b'', start_time = 0, end_time = 2\<rparr>]
   \<and> chunk_trace leading_space_cheap two_segments 10
     = Inr [(\<lparr>chunk_text = ''a b'', start_time = 0, end_time = 2\<rparr>, two_segments)]
   \<and> length two_segments = 2
   \<and> 10 < leading_space_cheap ''a b''"
  by (simp add: chunk_transcript_segments_def cheap_trace) (simp add: two_segments_def)

section \<open>The accumulated string\<close>

lemma emit_total:
  assumes "chunk_segments st \<noteq> []"
  shows "\<exists>e. emit st = Inr e"
  using assms by (cases "chunk_segments st") (simp_all add: emit_def)

lemma chunk_step_over:
  assumes "m < est (current_chunk_text st @ '' '' @ seg_text seg)"
    and "chunk_segments st \<noteq> [] \<or> current_chunk_text st = []"
  shows "\<exists>out. chunk_step est m st seg =
           Inr (out, \<lparr>current_chunk_text = seg_text seg,
                      current_chunk_start_time = seg_start seg,
                      chunk_segments = [seg]\<rparr>)"
proof (cases "current_chunk_text st = []")
  case True
  with assms(1) show ?thesis by (simp add: chunk_step_def Let_def)
next
  case False
  with assms(2) have "chunk_segments st \<noteq> []" by simp
  from emit_total [OF this] obtain e where "emit st = Inr e" by blast
  with False assms(1) show ?thesis by (simp add: chunk_step_def Let_def)
qed

lemma chunk_step_within:
  assumes "\<not> m < est (current_chunk_text st @ '' '' @ seg_text seg)"
  shows "chunk_step est m st seg =
           Inr ([], st\<lparr>current_chunk_text := current_chunk_text st @ '' '' @ seg_text seg,
                       chunk_segments := chunk_segments st @ [seg]\<rparr>)"
  using assms by (simp add: chunk_step_def Let_def)

lemma run_steps_accumulation:
  assumes "pre \<noteq> []" and "current_chunk_text st0 = []" and "chunk_segments st0 = []"
  shows "\<exists>st. run_steps est m st0 pre = Inr st
           \<and> chunk_segments st \<noteq> []
           \<and> (\<exists>before. pre = before @ chunk_segments st)
           \<and> current_chunk_text st =
               (if chunk_segments st = pre \<and> est ('' '' @ seg_text (hd pre)) \<le> m
                then '' '' @ join_space (map seg_text (chunk_segments st))
                else join_space (map seg_text (chunk_segments st)))"
  using assms(1)
proof (induction pre rule: rev_nonempty_induct)
  case (single x)
  show ?case
  proof (cases "m < est ('' '' @ seg_text x)")
    case True
    let ?st = "\<lparr>current_chunk_text = seg_text x,
                      current_chunk_start_time = seg_start x,
                      chunk_segments = [x]\<rparr>"
    from True assms(2) have o: "m < est (current_chunk_text st0 @ '' '' @ seg_text x)" by simp
    from assms(2) have "chunk_segments st0 \<noteq> [] \<or> current_chunk_text st0 = []" by simp
    from chunk_step_over [of m est st0 x, OF o this]
    have 1: "run_steps est m st0 [x] = Inr ?st" by auto
    have 2: "chunk_segments ?st \<noteq> []" by simp
    have 3: "\<exists>before. [x] = before @ chunk_segments ?st" by simp
    have 4: "current_chunk_text ?st =
               (if chunk_segments ?st = [x] \<and> est ('' '' @ seg_text (hd [x])) \<le> m
                then '' '' @ join_space (map seg_text (chunk_segments ?st))
                else join_space (map seg_text (chunk_segments ?st)))"
      using True by simp
    from 1 2 3 4 show ?thesis by (intro exI [of _ ?st] conjI)
  next
    case False
    let ?st = "st0\<lparr>current_chunk_text := current_chunk_text st0 @ '' '' @ seg_text x,
                       chunk_segments := chunk_segments st0 @ [x]\<rparr>"
    from False assms(2) have o: "\<not> m < est (current_chunk_text st0 @ '' '' @ seg_text x)"
      by simp
    from chunk_step_within [of m est st0 x, OF o]
    have 1: "run_steps est m st0 [x] = Inr ?st" by simp
    have 2: "chunk_segments ?st \<noteq> []" by simp
    have 3: "\<exists>before. [x] = before @ chunk_segments ?st" using assms(3) by simp
    have 4: "current_chunk_text ?st =
               (if chunk_segments ?st = [x] \<and> est ('' '' @ seg_text (hd [x])) \<le> m
                then '' '' @ join_space (map seg_text (chunk_segments ?st))
                else join_space (map seg_text (chunk_segments ?st)))"
      using False assms(2,3) by simp
    from 1 2 3 4 show ?thesis by (intro exI [of _ ?st] conjI)
  qed
next
  case (snoc x xs)
  then obtain st before where
    r: "run_steps est m st0 xs = Inr st" and
    n: "chunk_segments st \<noteq> []" and
    b: "xs = before @ chunk_segments st" and
    t: "current_chunk_text st =
               (if chunk_segments st = xs \<and> est ('' '' @ seg_text (hd xs)) \<le> m
                then '' '' @ join_space (map seg_text (chunk_segments st))
                else join_space (map seg_text (chunk_segments st)))"
    by blast
  show ?case
  proof (cases "m < est (current_chunk_text st @ '' '' @ seg_text x)")
    case True
    let ?st = "\<lparr>current_chunk_text = seg_text x,
                      current_chunk_start_time = seg_start x,
                      chunk_segments = [x]\<rparr>"
    from n have "chunk_segments st \<noteq> [] \<or> current_chunk_text st = []" by simp
    from chunk_step_over [of m est st x, OF True this] obtain out where
      s: "chunk_step est m st x = Inr (out, ?st)" by blast
    from r s have 1: "run_steps est m st0 (xs @ [x]) = Inr ?st"
      by (simp add: run_steps_snoc)
    have 2: "chunk_segments ?st \<noteq> []" by simp
    have "xs @ [x] = xs @ chunk_segments ?st" by simp
    then have 3: "\<exists>before. xs @ [x] = before @ chunk_segments ?st" by (rule exI)
    from snoc.hyps have "chunk_segments ?st \<noteq> xs @ [x]" by simp
    then have 4: "current_chunk_text ?st =
               (if chunk_segments ?st = xs @ [x] \<and> est ('' '' @ seg_text (hd (xs @ [x]))) \<le> m
                then '' '' @ join_space (map seg_text (chunk_segments ?st))
                else join_space (map seg_text (chunk_segments ?st)))"
      by simp
    from 1 2 3 4 show ?thesis by (intro exI [of _ ?st] conjI)
  next
    case False
    let ?st = "st\<lparr>current_chunk_text := current_chunk_text st @ '' '' @ seg_text x,
                       chunk_segments := chunk_segments st @ [x]\<rparr>"
    from r chunk_step_within [of m est st x, OF False]
    have 1: "run_steps est m st0 (xs @ [x]) = Inr ?st"
      by (simp add: run_steps_snoc)
    from b have "xs @ [x] = before @ chunk_segments ?st" by simp
    then have 3: "\<exists>before. xs @ [x] = before @ chunk_segments ?st" by (rule exI)
    from snoc.hyps have h: "hd (xs @ [x]) = hd xs" by simp
    from n have j: "join_space (map seg_text (chunk_segments st @ [x]))
         = join_space (map seg_text (chunk_segments st)) @ '' '' @ seg_text x"
      by (simp add: join_space_snoc)
    have 4: "current_chunk_text ?st =
               (if chunk_segments ?st = xs @ [x] \<and> est ('' '' @ seg_text (hd (xs @ [x]))) \<le> m
                then '' '' @ join_space (map seg_text (chunk_segments ?st))
                else join_space (map seg_text (chunk_segments ?st)))"
      using t j h by auto
    from n have 2: "chunk_segments ?st \<noteq> []" by simp
    from 1 2 3 4 show ?thesis by (intro exI [of _ ?st] conjI)
  qed
qed

lemma dear_steps:
  "run_steps leading_space_dear 10 (initial_state two_segments) two_segments =
     Inr \<lparr>current_chunk_text = ''a b'', current_chunk_start_time = 0,
          chunk_segments = two_segments\<rparr>"
  by (simp add: initial_state_def two_segments_def chunk_step_def emit_def Let_def)

text \<open>
  Claim C10, as amended. The budget test is applied to the untrimmed accumulated
  string. After every non-empty prefix of the input the loop is in a state whose
  accumulated segments are a non-empty run at the end of the prefix and whose
  accumulated string is their texts joined by single spaces, after one leading space
  exactly when the run is the whole prefix (nothing has restarted the accumulation)
  and the candidate of the first segment, a space and its text, was within the
  budget; whenever the run holds two or more segments, the estimate of the
  accumulated string is within the budget. Every chunk yielded is yielded in such a
  state, for the run accumulated there, and its text is the accumulated string
  trimmed.
\<close>

theorem budget_tested_on_accumulated_string:
  "(\<forall>pre suf. segments = pre @ suf \<and> pre \<noteq> [] \<longrightarrow>
      (\<exists>st. run_steps est m (initial_state segments) pre = Inr st
         \<and> chunk_segments st \<noteq> []
         \<and> (\<exists>before. pre = before @ chunk_segments st)
         \<and> current_chunk_text st =
             (if chunk_segments st = pre \<and> est ('' '' @ seg_text (hd pre)) \<le> m
              then '' '' @ join_space (map seg_text (chunk_segments st))
              else join_space (map seg_text (chunk_segments st)))
         \<and> (2 \<le> length (chunk_segments st) \<longrightarrow> est (current_chunk_text st) \<le> m)))
   \<and> (\<forall>out c r. chunk_trace est segments m = Inr out \<and> (c, r) \<in> set out \<longrightarrow>
        (\<exists>pre suf st. segments = pre @ suf \<and> pre \<noteq> []
           \<and> run_steps est m (initial_state segments) pre = Inr st
           \<and> r = chunk_segments st
           \<and> chunk_text c = strip (current_chunk_text st)))"
proof (intro conjI allI impI)
  fix pre suf
  assume a: "segments = pre @ suf \<and> pre \<noteq> []"
  then have p: "segments = pre @ suf" and ne: "pre \<noteq> []" by simp_all
  have "current_chunk_text (initial_state segments) = []"
    and "chunk_segments (initial_state segments) = []"
    by (simp_all add: initial_state_def)
  from run_steps_accumulation [OF ne this, of est m] obtain st where
    r: "run_steps est m (initial_state segments) pre = Inr st" and
    f: "chunk_segments st \<noteq> []" "\<exists>before. pre = before @ chunk_segments st"
      "current_chunk_text st =
             (if chunk_segments st = pre \<and> est ('' '' @ seg_text (hd pre)) \<le> m
              then '' '' @ join_space (map seg_text (chunk_segments st))
              else join_space (map seg_text (chunk_segments st)))"
    by blast
  from reachable_within_budget [OF r p]
  have "2 \<le> length (chunk_segments st) \<longrightarrow> est (current_chunk_text st) \<le> m"
    by (simp add: within_budget_def)
  with r f show "\<exists>st. run_steps est m (initial_state segments) pre = Inr st
         \<and> chunk_segments st \<noteq> []
         \<and> (\<exists>before. pre = before @ chunk_segments st)
         \<and> current_chunk_text st =
             (if chunk_segments st = pre \<and> est ('' '' @ seg_text (hd pre)) \<le> m
              then '' '' @ join_space (map seg_text (chunk_segments st))
              else join_space (map seg_text (chunk_segments st)))
         \<and> (2 \<le> length (chunk_segments st) \<longrightarrow> est (current_chunk_text st) \<le> m)"
    by (intro exI [of _ st] conjI)
next
  fix out c r
  assume "chunk_trace est segments m = Inr out \<and> (c, r) \<in> set out"
  then have "chunk_trace est segments m = Inr out" and "(c, r) \<in> set out" by simp_all
  then show "\<exists>pre suf st. segments = pre @ suf \<and> pre \<noteq> []
           \<and> run_steps est m (initial_state segments) pre = Inr st
           \<and> r = chunk_segments st
           \<and> chunk_text c = strip (current_chunk_text st)"
    by (rule trace_emission_state)
qed

theorem budget_tested_on_accumulated_string_witness:
  "\<exists>st c. run_steps leading_space_cheap 10 (initial_state two_segments) two_segments = Inr st
       \<and> chunk_segments st = two_segments
       \<and> current_chunk_text st = '' a b''
       \<and> leading_space_cheap (current_chunk_text st) \<le> 10
       \<and> chunk_trace leading_space_cheap two_segments 10 = Inr [(c, two_segments)]
       \<and> chunk_text c = ''a b''
       \<and> chunk_text c = strip (current_chunk_text st)
       \<and> chunk_text c \<noteq> current_chunk_text st"
proof -
  note t = budget_tested_on_accumulated_string [of two_segments leading_space_cheap 10]
  from t have "two_segments = two_segments @ [] \<and> two_segments \<noteq> [] \<longrightarrow>
      (\<exists>st. run_steps leading_space_cheap 10 (initial_state two_segments) two_segments = Inr st
         \<and> chunk_segments st \<noteq> []
         \<and> (\<exists>before. two_segments = before @ chunk_segments st)
         \<and> current_chunk_text st =
             (if chunk_segments st = two_segments
                 \<and> leading_space_cheap ('' '' @ seg_text (hd two_segments)) \<le> 10
              then '' '' @ join_space (map seg_text (chunk_segments st))
              else join_space (map seg_text (chunk_segments st)))
         \<and> (2 \<le> length (chunk_segments st)
              \<longrightarrow> leading_space_cheap (current_chunk_text st) \<le> 10))"
    by blast
  moreover have "two_segments = two_segments @ [] \<and> two_segments \<noteq> []"
    by (simp add: two_segments_def)
  ultimately obtain st where
    r: "run_steps leading_space_cheap 10 (initial_state two_segments) two_segments = Inr st"
    and x: "current_chunk_text st =
             (if chunk_segments st = two_segments
                 \<and> leading_space_cheap ('' '' @ seg_text (hd two_segments)) \<le> 10
              then '' '' @ join_space (map seg_text (chunk_segments st))
              else join_space (map seg_text (chunk_segments st)))"
    and b: "2 \<le> length (chunk_segments st)
              \<longrightarrow> leading_space_cheap (current_chunk_text st) \<le> 10"
    by blast
  from r have s: "chunk_segments st = two_segments" by (auto simp add: cheap_steps)
  with x have tx: "current_chunk_text st = '' a b''" by (simp add: two_segments_def)
  from s b have le: "leading_space_cheap (current_chunk_text st) \<le> 10"
    by (simp add: two_segments_def)
  let ?c = "\<lparr>chunk_text = ''a b'', start_time = 0, end_time = 2\<rparr>"
  have tr: "chunk_trace leading_space_cheap two_segments 10 = Inr [(?c, two_segments)]"
    by (rule cheap_trace)
  from tx have "chunk_text ?c = strip (current_chunk_text st)
                \<and> chunk_text ?c \<noteq> current_chunk_text st"
    by (simp add: strip_def py_isspace_def)
  with r s tx le tr show ?thesis by auto
qed

text \<open>
  The claim as written fails in one point: an accumulation that began at the very
  first input segment need not carry a leading space. With an estimator that rates a
  string by its first character (100 when it is a space, 1 otherwise) and a budget of
  10, the candidate \<open>" a"\<close> of the first segment is over the budget, so the
  accumulation restarts as \<open>"a"\<close>; the candidate \<open>"a b"\<close> is within the budget, and the
  accumulation of both segments is \<open>"a b"\<close>.
\<close>

theorem accumulation_without_leading_space_counterexample:
  "run_steps leading_space_dear 10 (initial_state two_segments) two_segments =
     Inr \<lparr>current_chunk_text = ''a b'', current_chunk_start_time = 0,
          chunk_segments = two_segments\<rparr>
   \<and> length two_segments = 2
   \<and> leading_space_dear ''a b'' \<le> 10
   \<and> 10 < leading_space_dear '' a''"
  by (simp add: dear_steps) (simp add: two_segments_def)

section \<open>Segments estimated above the budget\<close>













section \<open>The objects an invocation reads and writes\<close>

lemma heap_emit_abs:
  "emit (abs_state h fr) =
     (case heap_emit h fr of Inl e \<Rightarrow> Inl e
      | Inr c \<Rightarrow> Inr (c, segments_at h (local_chunk_segments fr)))"
  by (cases "list_objs h (local_chunk_segments fr)")
     (simp_all add: emit_def heap_emit_def abs_state_def segments_at_def last_map)

lemma heap_step_simulates:
  assumes "heap_frame h0 h" and "frame_fresh h0 h fr"
  shows "case chunk_step est m (abs_state h fr) (dict_objs h d) of
           Inl e \<Rightarrow> heap_step est m h fr d = Inl e
         | Inr (out, st') \<Rightarrow>
             (\<exists>h' fr'. heap_step est m h fr d = Inr (map fst out, h', fr')
                \<and> abs_state h' fr' = st' \<and> heap_frame h0 h' \<and> frame_fresh h0 h' fr')"
proof (cases "m < est (local_chunk_text fr @ '' '' @ seg_text (dict_objs h d))")
  case within: False
  let ?h = "list_append (local_chunk_segments fr) d h"
  let ?fr = "fr\<lparr>local_chunk_text := local_chunk_text fr @ '' '' @ seg_text (dict_objs h d)\<rparr>"
  from within have 1: "heap_step est m h fr d = Inr ([], ?h, ?fr)"
    by (simp add: heap_step_def Let_def)
  from within have 2: "chunk_step est m (abs_state h fr) (dict_objs h d)
       = Inr ([], (abs_state h fr)\<lparr>current_chunk_text :=
                     local_chunk_text fr @ '' '' @ seg_text (dict_objs h d),
                   chunk_segments := segments_at h (local_chunk_segments fr) @ [dict_objs h d]\<rparr>)"
    by (simp add: chunk_step_def Let_def abs_state_def)
  have 3: "abs_state ?h ?fr = (abs_state h fr)\<lparr>current_chunk_text :=
                     local_chunk_text fr @ '' '' @ seg_text (dict_objs h d),
                   chunk_segments := segments_at h (local_chunk_segments fr) @ [dict_objs h d]\<rparr>"
    by (simp add: abs_state_def segments_at_def list_append_def)
  from assms have 4: "heap_frame h0 ?h"
    by (auto simp: heap_frame_def frame_fresh_def list_append_def)
  from assms have 5: "frame_fresh h0 ?h ?fr"
    by (simp add: frame_fresh_def list_append_def)
  from 1 3 4 5 have "\<exists>h' fr'. heap_step est m h fr d = Inr (map fst [], h', fr')
                \<and> abs_state h' fr' = (abs_state h fr)\<lparr>current_chunk_text :=
                     local_chunk_text fr @ '' '' @ seg_text (dict_objs h d),
                   chunk_segments := segments_at h (local_chunk_segments fr) @ [dict_objs h d]\<rparr>
                \<and> heap_frame h0 h' \<and> frame_fresh h0 h' fr'"
    by (intro exI [of _ ?h] exI [of _ ?fr]) simp
  with 2 show ?thesis by simp
next
  case over: True
  let ?h = "snd (new_list [d] h)"
  let ?fr = "\<lparr>local_chunk_text = seg_text (dict_objs h d),
             local_start_time = seg_start (dict_objs h d),
             local_chunk_segments = next_ref h\<rparr>"
  let ?st = "\<lparr>current_chunk_text = seg_text (dict_objs h d),
             current_chunk_start_time = seg_start (dict_objs h d),
             chunk_segments = [dict_objs h d]\<rparr>"
  have 3: "abs_state ?h ?fr = ?st"
    by (simp add: abs_state_def segments_at_def new_list_def)
  from assms have 4: "heap_frame h0 ?h"
    by (auto simp: heap_frame_def frame_fresh_def new_list_def)
  from assms have 5: "frame_fresh h0 ?h ?fr"
    by (auto simp: heap_frame_def frame_fresh_def new_list_def)
  show ?thesis
  proof (cases "local_chunk_text fr = []")
    case True
    with over have 1: "heap_step est m h fr d = Inr ([], ?h, ?fr)"
      by (simp add: heap_step_def Let_def new_list_def)
    from True over have 2: "chunk_step est m (abs_state h fr) (dict_objs h d) = Inr ([], ?st)"
      by (simp add: chunk_step_def Let_def abs_state_def)
    from 1 3 4 5 have "\<exists>h' fr'. heap_step est m h fr d = Inr (map fst [], h', fr')
                \<and> abs_state h' fr' = ?st \<and> heap_frame h0 h' \<and> frame_fresh h0 h' fr'"
      by (intro exI [of _ ?h] exI [of _ ?fr]) simp
    with 2 show ?thesis by simp
  next
    case False
    show ?thesis
    proof (cases "heap_emit h fr")
      case (Inl e)
      with False over have 1: "heap_step est m h fr d = Inl e"
        by (simp add: heap_step_def Let_def new_list_def)
      from Inl False over have 2: "chunk_step est m (abs_state h fr) (dict_objs h d) = Inl e"
        by (simp add: chunk_step_def Let_def heap_emit_abs) (simp add: abs_state_def)
      from 1 2 show ?thesis by simp
    next
      case (Inr c)
      with False over have 1: "heap_step est m h fr d = Inr ([c], ?h, ?fr)"
        by (simp add: heap_step_def Let_def new_list_def)
      from Inr False over have 2: "chunk_step est m (abs_state h fr) (dict_objs h d)
           = Inr ([(c, segments_at h (local_chunk_segments fr))], ?st)"
        by (simp add: chunk_step_def Let_def heap_emit_abs) (simp add: abs_state_def)
      from 1 3 4 5 have "\<exists>h' fr'. heap_step est m h fr d
                   = Inr (map fst [(c, segments_at h (local_chunk_segments fr))], h', fr')
                \<and> abs_state h' fr' = ?st \<and> heap_frame h0 h' \<and> frame_fresh h0 h' fr'"
        by (intro exI [of _ ?h] exI [of _ ?fr]) simp
      with 2 show ?thesis by simp
    qed
  qed
qed

lemma heap_final_simulates:
  assumes "\<not> i < length (list_objs h segs)"
  shows "case final_yield (abs_state h fr) of
           Inl e \<Rightarrow> heap_scan (Suc fuel) est m segs i h fr = Some (Inl e)
         | Inr out \<Rightarrow> heap_scan (Suc fuel) est m segs i h fr = Some (Inr (map fst out, h))"
proof (cases "local_chunk_text fr = []")
  case True
  with assms show ?thesis by (simp add: final_yield_def abs_state_def)
next
  case False
  then have c: "current_chunk_text (abs_state h fr) \<noteq> []" by (simp add: abs_state_def)
  show ?thesis
  proof (cases "heap_emit h fr")
    case (Inl e)
    with False c assms show ?thesis by (simp add: final_yield_def heap_emit_abs)
  next
    case (Inr c')
    with False c assms show ?thesis by (simp add: final_yield_def heap_emit_abs)
  qed
qed

lemma heap_scan_simulates:
  assumes "segs < next_ref h0" and "heap_frame h0 h" and "frame_fresh h0 h fr"
    and "i \<le> length (list_objs h0 segs)" and "length (list_objs h0 segs) - i < fuel"
  shows "case scan est m (abs_state h fr) (map (dict_objs h0) (drop i (list_objs h0 segs))) of
           Inl e \<Rightarrow> heap_scan fuel est m segs i h fr = Some (Inl e)
         | Inr out \<Rightarrow>
             (\<exists>h'. heap_scan fuel est m segs i h fr = Some (Inr (map fst out, h'))
                \<and> heap_frame h0 h')"
  using assms(2-5)
proof (induction fuel arbitrary: i h fr)
  case 0
  then show ?case by simp
next
  case (Suc fuel)
  from Suc.prems(1) assms(1) have L: "list_objs h segs = list_objs h0 segs"
    and D: "dict_objs h = dict_objs h0" by (simp_all add: heap_frame_def)
  show ?case
  proof (cases "i < length (list_objs h0 segs)")
    case False
    with Suc.prems(3) have "drop i (list_objs h0 segs) = []" by simp
    then have sc: "scan est m (abs_state h fr) (map (dict_objs h0) (drop i (list_objs h0 segs)))
                 = final_yield (abs_state h fr)" by simp
    from False L have "\<not> i < length (list_objs h segs)" by simp
    note fin = heap_final_simulates [where fr = fr and fuel = fuel and est = est and m = m, OF this]
    show ?thesis
    proof (cases "final_yield (abs_state h fr)")
      case (Inl e)
      with sc fin show ?thesis by simp
    next
      case (Inr out)
      with sc fin Suc.prems(1) show ?thesis by simp
    qed
  next
    case True
    let ?d = "list_objs h0 segs ! i"
    let ?rest = "map (dict_objs h0) (drop (Suc i) (list_objs h0 segs))"
    from True have dr: "map (dict_objs h0) (drop i (list_objs h0 segs)) = dict_objs h ?d # ?rest"
      by (simp add: D Cons_nth_drop_Suc [symmetric])
    from True L have hs: "heap_scan (Suc fuel) est m segs i h fr =
        (case heap_step est m h fr ?d of
           Inl e \<Rightarrow> Some (Inl e)
         | Inr (out, h', fr') \<Rightarrow>
             (case heap_scan fuel est m segs (Suc i) h' fr' of
                None \<Rightarrow> None
              | Some (Inl e) \<Rightarrow> Some (Inl e)
              | Some (Inr (cs, h'')) \<Rightarrow> Some (Inr (out @ cs, h''))))"
      by simp
    note sim = heap_step_simulates [OF Suc.prems(1,2), of est m ?d]
    show ?thesis
    proof (cases "chunk_step est m (abs_state h fr) (dict_objs h ?d)")
      case (Inl e)
      with sim have "heap_step est m h fr ?d = Inl e" by simp
      with hs have "heap_scan (Suc fuel) est m segs i h fr = Some (Inl e)" by simp
      with Inl dr show ?thesis by simp
    next
      case (Inr p)
      obtain out st' where p: "p = (out, st')" by (cases p)
      with Inr sim obtain h' fr' where
        st: "heap_step est m h fr ?d = Inr (map fst out, h', fr')" and
        ab: "abs_state h' fr' = st'" and
        f: "heap_frame h0 h'" and fr: "frame_fresh h0 h' fr'" by auto
      from True have i1: "Suc i \<le> length (list_objs h0 segs)" by simp
      from Suc.prems(4) True have i2: "length (list_objs h0 segs) - Suc i < fuel" by simp
      note ih = Suc.IH [OF f fr i1 i2]
      from Inr p dr have sc:
        "scan est m (abs_state h fr) (map (dict_objs h0) (drop i (list_objs h0 segs)))
           = (case scan est m st' ?rest of Inl e \<Rightarrow> Inl e | Inr cs \<Rightarrow> Inr (out @ cs))"
        by simp
      show ?thesis
      proof (cases "scan est m st' ?rest")
        case (Inl e)
        with ih ab have "heap_scan fuel est m segs (Suc i) h' fr' = Some (Inl e)" by simp
        with hs st have "heap_scan (Suc fuel) est m segs i h fr = Some (Inl e)" by simp
        with sc Inl show ?thesis by simp
      next
        case (Inr cs)
        with ih ab obtain h'' where
          "heap_scan fuel est m segs (Suc i) h' fr' = Some (Inr (map fst cs, h''))"
          and f2: "heap_frame h0 h''" by auto
        with hs st have "heap_scan (Suc fuel) est m segs i h fr
                           = Some (Inr (map fst (out @ cs), h''))" by simp
        with f2 have "\<exists>h'. heap_scan (Suc fuel) est m segs i h fr
                           = Some (Inr (map fst (out @ cs), h')) \<and> heap_frame h0 h'"
          by (intro exI [of _ h'']) simp
        with sc Inr show ?thesis by simp
      qed
    qed
  qed
qed

lemma heap_run_refines:
  assumes "segs < next_ref h" and "length (list_objs h segs) < fuel"
  shows "\<exists>out h'. heap_chunk_transcript_segments fuel est h segs m = Some (Inr (out, h'))
           \<and> chunk_transcript_segments est (segments_at h segs) m = Inr out
           \<and> heap_frame h h'"
proof -
  let ?h1 = "snd (new_list [] h)"
  from assms(1) have f1: "heap_frame h ?h1" by (simp add: heap_frame_def new_list_def)
  from assms(1) have L: "list_objs ?h1 segs = list_objs h segs" by (simp add: new_list_def)
  show ?thesis
  proof (cases "list_objs h segs = []")
    case True
    with L have "heap_chunk_transcript_segments fuel est h segs m = Some (Inr ([], ?h1))"
      by (simp add: heap_chunk_transcript_segments_def new_list_def)
    moreover from True have "chunk_transcript_segments est (segments_at h segs) m = Inr []"
      by (simp add: chunk_transcript_segments_def chunk_trace_def segments_at_def)
    ultimately show ?thesis using f1 by (intro exI [of _ "[]"] exI [of _ ?h1]) simp
  next
    case False
    let ?fr = "\<lparr>local_chunk_text = [],
               local_start_time = seg_start (dict_objs ?h1 (list_objs ?h1 segs ! 0)),
               local_chunk_segments = next_ref h\<rparr>"
    from False L have run: "heap_chunk_transcript_segments fuel est h segs m
                   = heap_scan fuel est m segs 0 ?h1 ?fr"
      by (simp add: heap_chunk_transcript_segments_def new_list_def)
    have fresh: "frame_fresh h ?h1 ?fr" by (simp add: frame_fresh_def new_list_def)
    from False assms(1) have ab: "abs_state ?h1 ?fr = initial_state (segments_at h segs)"
      by (simp add: abs_state_def initial_state_def segments_at_def new_list_def hd_map
          hd_conv_nth)
    from scan_inv [OF acc_inv_initial, of est m "segments_at h segs"]
    obtain out where sc: "scan est m (initial_state (segments_at h segs)) (segments_at h segs)
                            = Inr out" by blast
    from assms(2) have fu: "length (list_objs h segs) - 0 < fuel" by simp
    from heap_scan_simulates [OF assms(1) f1 fresh _ fu, of est m] ab sc
    obtain h' where hs: "heap_scan fuel est m segs 0 ?h1 ?fr = Some (Inr (map fst out, h'))"
      and f: "heap_frame h h'" by (auto simp: segments_at_def)
    from False sc have "chunk_transcript_segments est (segments_at h segs) m = Inr (map fst out)"
      by (simp add: chunk_transcript_segments_def chunk_trace_def segments_at_def)
    with run hs f show ?thesis by (intro exI [of _ "map fst out"] exI [of _ h']) simp
  qed
qed

text \<open>
  Claim C7. The generator, run to its end on a heap in which the argument \<open>segments\<close>
  refers to an allocated list, ends without an exception; its chunks are those of the
  functional model applied to the segment values the list refers to, so they depend on
  nothing but these values, the estimator and the budget: an invocation on any other
  heap, for a list that holds the same segment values, yields the same chunks. The
  invocation writes only to lists it has allocated itself: every list and every
  segment dictionary that existed before, the input list and its segments among them,
  is unchanged afterwards, and a second invocation on the resulting heap yields the
  same chunks again.
\<close>

theorem chunker_deterministic_and_pure:
  assumes "segments < next_ref h" and "length (list_objs h segments) < fuel"
    and "segments2 < next_ref h2" and "length (list_objs h2 segments2) < fuel2"
    and "segments_at h2 segments2 = segments_at h segments"
  shows "\<exists>out h' h2' h''.
           heap_chunk_transcript_segments fuel est h segments m = Some (Inr (out, h'))
         \<and> heap_chunk_transcript_segments fuel2 est h2 segments2 m = Some (Inr (out, h2'))
         \<and> chunk_transcript_segments est (segments_at h segments) m = Inr out
         \<and> heap_frame h h'
         \<and> list_objs h' segments = list_objs h segments
         \<and> segments_at h' segments = segments_at h segments
         \<and> heap_chunk_transcript_segments fuel est h' segments m = Some (Inr (out, h''))"
proof -
  from heap_run_refines [OF assms(1,2), of est m] obtain out h' where
    1: "heap_chunk_transcript_segments fuel est h segments m = Some (Inr (out, h'))" and
    2: "chunk_transcript_segments est (segments_at h segments) m = Inr out" and
    3: "heap_frame h h'" by blast
  from heap_run_refines [OF assms(3,4), of est m] assms(5) 2 obtain h2' where
    4: "heap_chunk_transcript_segments fuel2 est h2 segments2 m = Some (Inr (out, h2'))"
    by auto
  from 3 assms(1) have 5: "list_objs h' segments = list_objs h segments"
    and 6: "segments_at h' segments = segments_at h segments"
    and 7: "segments < next_ref h'"
    by (simp_all add: heap_frame_def segments_at_def)
  from assms(2) 5 have "length (list_objs h' segments) < fuel" by simp
  from heap_run_refines [OF 7 this, of est m] 6 2 obtain h'' where
    8: "heap_chunk_transcript_segments fuel est h' segments m = Some (Inr (out, h''))"
    by auto
  from 1 4 2 3 5 6 8 show ?thesis
    by (intro exI [of _ out] exI [of _ h'] exI [of _ h2'] exI [of _ h'']) simp
qed

lemma count_chunks_two:
  "chunk_transcript_segments character_count two_segments 2 =
     Inr [\<lparr>chunk_text = ''a'', start_time = 0, end_time = 1\<rparr>,
          \<lparr>chunk_text = ''b'', start_time = 1, end_time = 2\<rparr>]"
  by (simp add: chunk_transcript_segments_def chunk_trace_def initial_state_def
      two_segments_def chunk_step_def emit_def final_yield_def Let_def strip_def
      py_isspace_def character_count_def)

theorem chunker_deterministic_and_pure_witness:
  "\<exists>h' h2' h''.
       heap_chunk_transcript_segments 3 character_count example_heap 0 2
         = Some (Inr ([\<lparr>chunk_text = ''a'', start_time = 0, end_time = 1\<rparr>,
                       \<lparr>chunk_text = ''b'', start_time = 1, end_time = 2\<rparr>], h'))
     \<and> heap_chunk_transcript_segments 3 character_count other_heap 3 2
         = Some (Inr ([\<lparr>chunk_text = ''a'', start_time = 0, end_time = 1\<rparr>,
                       \<lparr>chunk_text = ''b'', start_time = 1, end_time = 2\<rparr>], h2'))
     \<and> list_objs h' 0 = [0, 1]
     \<and> segments_at h' 0 = two_segments
     \<and> heap_chunk_transcript_segments 3 character_count h' 0 2
         = Some (Inr ([\<lparr>chunk_text = ''a'', start_time = 0, end_time = 1\<rparr>,
                       \<lparr>chunk_text = ''b'', start_time = 1, end_time = 2\<rparr>], h''))"
proof -
  have a: "(0::nat) < next_ref example_heap" "length (list_objs example_heap 0) < 3"
    "(3::nat) < next_ref other_heap" "length (list_objs other_heap 3) < 3"
    by (simp_all add: example_heap_def other_heap_def)
  have v: "segments_at example_heap 0 = two_segments"
    by (simp add: segments_at_def example_heap_def two_segments_def)
  have "segments_at other_heap 3 = two_segments"
    by (simp add: segments_at_def other_heap_def two_segments_def)
  with v have e: "segments_at other_heap 3 = segments_at example_heap 0" by simp
  have l: "list_objs example_heap 0 = [0, 1]" by (simp add: example_heap_def)
  from chunker_deterministic_and_pure [OF a e, of character_count 2] v l count_chunks_two
  show ?thesis by auto
qed

section \<open>The timestamp formatter\<close>

lemma decimal_one_digit: "n < 10 \<Longrightarrow> decimal n = [digit_char n]"
  by (simp add: decimal.simps)

lemma decimal_two_digits:
  "10 \<le> n \<Longrightarrow> n < 100 \<Longrightarrow> decimal n = [digit_char (n div 10), digit_char (n mod 10)]"
  by (subst decimal.simps) (simp add: decimal_one_digit)

lemma length_decimal_ge2: "10 \<le> n \<Longrightarrow> 2 \<le> length (decimal n)"
  by (subst decimal.simps) (simp add: Suc_le_eq decimal.simps [of "n div 10"])

lemma digit_char_0: "digit_char 0 = CHR ''0''"
  by (simp add: digit_char_def)

lemma format_02d_two_digits:
  assumes "0 \<le> n" and "n < 100"
  shows "format_02d n = [digit_char (nat n div 10), digit_char (nat n mod 10)]"
proof (cases "n < 10")
  case True
  with assms show ?thesis
    by (simp add: format_02d_def Let_def decimal_one_digit digit_char_0)
next
  case False
  with assms have "decimal (nat n) = [digit_char (nat n div 10), digit_char (nat n mod 10)]"
    by (intro decimal_two_digits) auto
  with assms show ?thesis by (simp add: format_02d_def Let_def)
qed

lemma format_02d_wide:
  assumes "10 \<le> n"
  shows "format_02d n = decimal (nat n)"
proof -
  from assms have "2 \<le> length (decimal (nat n))" by (intro length_decimal_ge2) auto
  with assms show ?thesis by (simp add: format_02d_def Let_def)
qed

lemma format_timestamp_negative: "seconds < 0 \<Longrightarrow> format_timestamp seconds = ''00:00''"
  by (simp add: format_timestamp_def)

lemma format_timestamp_truncates:
  assumes "0 \<le> seconds"
  shows "format_timestamp seconds = format_timestamp (of_int \<lfloor>seconds\<rfloor>)"
  using assms by (simp add: format_timestamp_def py_int_def)

lemma format_timestamp_minutes:
  assumes "0 \<le> seconds" and "\<lfloor>seconds\<rfloor> < 3600"
  shows "format_timestamp seconds =
           [digit_char (nat \<lfloor>seconds\<rfloor> div 60 div 10), digit_char (nat \<lfloor>seconds\<rfloor> div 60 mod 10),
            CHR '':'',
            digit_char (nat \<lfloor>seconds\<rfloor> mod 60 div 10), digit_char (nat \<lfloor>seconds\<rfloor> mod 60 mod 10)]"
proof -
  define t where "t = \<lfloor>seconds\<rfloor>"
  from assms have t: "0 \<le> t" "t < 3600" by (simp_all add: t_def)
  then have h: "t div 60 div 60 = 0" by simp
  from t have m: "0 \<le> t div 60" "t div 60 < 100" by simp_all
  from t have s: "0 \<le> t mod 60" "t mod 60 < 100" by simp_all
  from t have mm: "t div 60 mod 60 = t div 60" by simp
  have nm: "nat (t div 60) = nat t div 60" using t by (simp add: nat_div_distrib)
  have ns: "nat (t mod 60) = nat t mod 60" using t by (simp add: nat_mod_distrib)
  show ?thesis
    using assms(1) h mm
    by (simp add: format_timestamp_def py_int_def py_divmod_def t_def [symmetric]
        format_02d_two_digits [OF m] format_02d_two_digits [OF s] nm ns)
qed

lemma format_timestamp_hours:
  assumes "3600 \<le> \<lfloor>seconds\<rfloor>"
  shows "format_timestamp seconds =
           (if nat \<lfloor>seconds\<rfloor> div 3600 < 10 then CHR ''0'' # decimal (nat \<lfloor>seconds\<rfloor> div 3600)
            else decimal (nat \<lfloor>seconds\<rfloor> div 3600))
           @ [CHR '':'',
              digit_char (nat \<lfloor>seconds\<rfloor> div 60 mod 60 div 10),
              digit_char (nat \<lfloor>seconds\<rfloor> div 60 mod 60 mod 10),
              CHR '':'',
              digit_char (nat \<lfloor>seconds\<rfloor> mod 60 div 10), digit_char (nat \<lfloor>seconds\<rfloor> mod 60 mod 10)]"
proof -
  define t where "t = \<lfloor>seconds\<rfloor>"
  from assms have t: "3600 \<le> t" by (simp add: t_def)
  then have pos: "0 \<le> seconds" by (simp add: t_def le_floor_iff)
  from t have h: "0 < t div 60 div 60" by (simp add: zdiv_zmult2_eq [symmetric] pos_imp_zdiv_pos_iff)
  have m: "0 \<le> t div 60 mod 60" "t div 60 mod 60 < 100"
    by simp_all
  have s: "0 \<le> t mod 60" "t mod 60 < 100"
    by simp_all
  have nh: "nat (t div 60 div 60) = nat t div 3600"
    using t by (simp add: nat_div_distrib zdiv_zmult2_eq [symmetric] div_mult2_eq [symmetric])
  have nm: "nat (t div 60 mod 60) = nat t div 60 mod 60"
    using t by (simp add: nat_div_distrib nat_mod_distrib)
  have ns: "nat (t mod 60) = nat t mod 60" using t by (simp add: nat_mod_distrib)
  have hh: "format_02d (t div 60 div 60) =
              (if nat t div 3600 < 10 then CHR ''0'' # decimal (nat t div 3600)
               else decimal (nat t div 3600))"
  proof (cases "t div 60 div 60 < 10")
    case True
    with h have "nat (t div 60 div 60) < 10" by simp
    with True h show ?thesis
      by (simp add: format_02d_def Let_def decimal_one_digit nh [symmetric])
  next
    case False
    then have "10 \<le> t div 60 div 60" by simp
    from format_02d_wide [OF this] False h show ?thesis
      by (simp add: nh [symmetric])
  qed
  show ?thesis
    using pos h
    by (simp add: format_timestamp_def py_int_def py_divmod_def t_def [symmetric]
        format_02d_two_digits [OF m] format_02d_two_digits [OF s] nm ns hh)
qed

text \<open>
  Claim C9. \<open>format_timestamp\<close> returns \<open>00:00\<close> for every negative input. For a
  non-negative input only the integer part counts. When the integer part is below one
  hour the result is \<open>MM:SS\<close>, two decimal digits each, the seconds (and the minutes)
  between 00 and 59; otherwise it is \<open>HH:MM:SS\<close>, the hours with at least two digits
  and more when needed. The six examples of the tests hold.
\<close>

theorem format_timestamp_spec:
  "(seconds < 0 \<longrightarrow> format_timestamp seconds = ''00:00'')
   \<and> (0 \<le> seconds \<longrightarrow> format_timestamp seconds = format_timestamp (of_int \<lfloor>seconds\<rfloor>))
   \<and> (0 \<le> seconds \<and> \<lfloor>seconds\<rfloor> < 3600 \<longrightarrow>
        nat \<lfloor>seconds\<rfloor> div 60 < 60 \<and> nat \<lfloor>seconds\<rfloor> mod 60 < 60
        \<and> format_timestamp seconds =
           [digit_char (nat \<lfloor>seconds\<rfloor> div 60 div 10), digit_char (nat \<lfloor>seconds\<rfloor> div 60 mod 10),
            CHR '':'',
            digit_char (nat \<lfloor>seconds\<rfloor> mod 60 div 10), digit_char (nat \<lfloor>seconds\<rfloor> mod 60 mod 10)])
   \<and> (3600 \<le> \<lfloor>seconds\<rfloor> \<longrightarrow>
        nat \<lfloor>seconds\<rfloor> div 60 mod 60 < 60 \<and> nat \<lfloor>seconds\<rfloor> mod 60 < 60
        \<and> format_timestamp seconds =
           (if nat \<lfloor>seconds\<rfloor> div 3600 < 10 then CHR ''0'' # decimal (nat \<lfloor>seconds\<rfloor> div 3600)
            else decimal (nat \<lfloor>seconds\<rfloor> div 3600))
           @ [CHR '':'',
              digit_char (nat \<lfloor>seconds\<rfloor> div 60 mod 60 div 10),
              digit_char (nat \<lfloor>seconds\<rfloor> div 60 mod 60 mod 10),
              CHR '':'',
              digit_char (nat \<lfloor>seconds\<rfloor> mod 60 div 10), digit_char (nat \<lfloor>seconds\<rfloor> mod 60 mod 10)])
   \<and> format_timestamp 35.6 = ''00:35''
   \<and> format_timestamp 150 = ''02:30''
   \<and> format_timestamp 3599 = ''59:59''
   \<and> format_timestamp 3661 = ''01:01:01''
   \<and> format_timestamp 0 = ''00:00''
   \<and> format_timestamp (- 10) = ''00:00''"
proof -
  have neg: "seconds < 0 \<longrightarrow> format_timestamp seconds = ''00:00''"
    by (simp add: format_timestamp_negative)
  have trunc: "0 \<le> seconds \<longrightarrow> format_timestamp seconds = format_timestamp (of_int \<lfloor>seconds\<rfloor>)"
    using format_timestamp_truncates by blast
  have short: "0 \<le> seconds \<and> \<lfloor>seconds\<rfloor> < 3600 \<longrightarrow>
        nat \<lfloor>seconds\<rfloor> div 60 < 60 \<and> nat \<lfloor>seconds\<rfloor> mod 60 < 60
        \<and> format_timestamp seconds =
           [digit_char (nat \<lfloor>seconds\<rfloor> div 60 div 10), digit_char (nat \<lfloor>seconds\<rfloor> div 60 mod 10),
            CHR '':'',
            digit_char (nat \<lfloor>seconds\<rfloor> mod 60 div 10), digit_char (nat \<lfloor>seconds\<rfloor> mod 60 mod 10)]"
  proof
    assume a: "0 \<le> seconds \<and> \<lfloor>seconds\<rfloor> < 3600"
    then have "\<lfloor>seconds\<rfloor> < 3600" by blast
    then have "nat \<lfloor>seconds\<rfloor> < 3600" by linarith
    then have "nat \<lfloor>seconds\<rfloor> div 60 < 60" by simp
    with a format_timestamp_minutes [of seconds] show
      "nat \<lfloor>seconds\<rfloor> div 60 < 60 \<and> nat \<lfloor>seconds\<rfloor> mod 60 < 60
        \<and> format_timestamp seconds =
           [digit_char (nat \<lfloor>seconds\<rfloor> div 60 div 10), digit_char (nat \<lfloor>seconds\<rfloor> div 60 mod 10),
            CHR '':'',
            digit_char (nat \<lfloor>seconds\<rfloor> mod 60 div 10), digit_char (nat \<lfloor>seconds\<rfloor> mod 60 mod 10)]"
      by simp
  qed
  have long: "3600 \<le> \<lfloor>seconds\<rfloor> \<longrightarrow>
        nat \<lfloor>seconds\<rfloor> div 60 mod 60 < 60 \<and> nat \<lfloor>seconds\<rfloor> mod 60 < 60
        \<and> format_timestamp seconds =
           (if nat \<lfloor>seconds\<rfloor> div 3600 < 10 then CHR ''0'' # decimal (nat \<lfloor>seconds\<rfloor> div 3600)
            else decimal (nat \<lfloor>seconds\<rfloor> div 3600))
           @ [CHR '':'',
              digit_char (nat \<lfloor>seconds\<rfloor> div 60 mod 60 div 10),
              digit_char (nat \<lfloor>seconds\<rfloor> div 60 mod 60 mod 10),
              CHR '':'',
              digit_char (nat \<lfloor>seconds\<rfloor> mod 60 div 10), digit_char (nat \<lfloor>seconds\<rfloor> mod 60 mod 10)]"
    using format_timestamp_hours [of seconds] by simp
  have e1: "format_timestamp 35.6 = ''00:35''"
    using format_timestamp_minutes [of "35.6"] by (simp add: digit_char_def)
  have e2: "format_timestamp 150 = ''02:30''"
    using format_timestamp_minutes [of "150"] by (simp add: digit_char_def)
  have e3: "format_timestamp 3599 = ''59:59''"
    using format_timestamp_minutes [of "3599"] by (simp add: digit_char_def)
  have e4: "format_timestamp 3661 = ''01:01:01''"
    using format_timestamp_hours [of "3661"] by (simp add: digit_char_def decimal_one_digit)
  have e5: "format_timestamp 0 = ''00:00''"
    using format_timestamp_minutes [of "0"] by (simp add: digit_char_def)
  have e6: "format_timestamp (- 10) = ''00:00''"
    by (simp add: format_timestamp_negative)
  from neg trunc short long e1 e2 e3 e4 e5 e6 show ?thesis by blast
qed

theorem format_timestamp_spec_witness:
  "format_timestamp (- 0.5) = ''00:00''
   \<and> format_timestamp 150.25 = format_timestamp 150
   \<and> format_timestamp 150.25 = ''02:30''
   \<and> format_timestamp 360000.75 = ''100:00:00''"
proof -
  have a: "format_timestamp (- 0.5) = ''00:00''"
    using format_timestamp_spec [of "- 0.5"] by simp
  have b: "format_timestamp 150.25 = format_timestamp 150"
    using format_timestamp_spec [of "150.25"] by simp
  have c: "format_timestamp 150.25 = ''02:30''"
    using format_timestamp_spec [of "150.25"] by (simp add: digit_char_def)
  have d: "format_timestamp 360000.75 = ''100:00:00''"
    using format_timestamp_spec [of "360000.75"]
    by (auto simp: digit_char_def decimal.simps [of 100] decimal.simps [of 10] decimal_one_digit)
  from a b c d show ?thesis by simp
qed

end
